theory Spec2Isabelle
  imports Main "HOL-Library.Word"
begin

section \<open>Data model of memcg\_priority.bpf.c\<close>

text \<open>
  The BPF program keeps all of its state in three array maps and reads a configuration
  structure that userspace fills in before attaching. Integers have the widths of the
  source: \<open>__u64\<close>, \<open>__u32\<close> and \<open>__u8\<close> are words, so \<open>+\<close> and \<open>-\<close> wrap around exactly
  as the C arithmetic does.
\<close>

type_synonym u8 = "8 word"
type_synonym u32 = "32 word"
type_synonym u64 = "64 word"
type_synonym s32 = "32 word" \<comment> \<open>a C \<open>int\<close>: the same 32 bits, read with \<open>sint\<close>\<close>

definition ONE_SECOND_NS :: u64 where
  "ONE_SECOND_NS = 1000000000"

text \<open>\<open>struct memcg_priority_config local_config\<close>.\<close>

record memcg_priority_config =
  high_cgroup_id :: u64
  threshold :: u64
  over_high_ms :: u32
  use_below_low :: u8
  use_below_min :: u8

text \<open>\<open>struct AggregationData\<close>; the field \<open>sum\<close> is called \<open>sum_agg\<close> here.\<close>

record AggregationData =
  sum_agg :: u64
  window_start_ts :: u64

text \<open>
  The fields of \<open>struct trace_event_raw_memcg_rstat_events\<close> that the handler reads:
  \<open>u64 id\<close> (here \<open>id_ctx\<close>), \<open>int item\<close> and \<open>unsigned long val\<close>.
\<close>

record trace_event_raw_memcg_rstat_events =
  id_ctx :: u64
  item :: s32
  val :: u64

text \<open>
  The three maps. A \<open>BPF_MAP_TYPE_ARRAY\<close> with \<open>max_entries = n\<close> is a list of \<open>n\<close>
  zero-initialised values, indexed by a \<open>__u32\<close> key.
\<close>

record bpf_maps =
  aggregation_map :: "AggregationData list"
  trigger_ts_map :: "u64 list"
  stats :: "u64 list"

definition init_maps :: bpf_maps where
  "init_maps =
     \<lparr>aggregation_map = [\<lparr>sum_agg = 0, window_start_ts = 0\<rparr>],
      trigger_ts_map = [0],
      stats = [0, 0, 0, 0]\<rparr>"

text \<open>The sizes declared by \<open>max_entries\<close>; no operation of the program changes them.\<close>

definition maps_sized :: "bpf_maps \<Rightarrow> bool" where
  "maps_sized s =
     (length (aggregation_map s) = 1 \<and> length (trigger_ts_map s) = 1 \<and> length (stats s) = 4)"

definition STAT_HIGH_DELAY_CALLS :: u32 where "STAT_HIGH_DELAY_CALLS = 0"
definition STAT_HIGH_DELAY_ACTIVE :: u32 where "STAT_HIGH_DELAY_ACTIVE = 1"
definition STAT_BELOW_LOW_CALLS :: u32 where "STAT_BELOW_LOW_CALLS = 2"
definition STAT_BELOW_LOW_ACTIVE :: u32 where "STAT_BELOW_LOW_ACTIVE = 3"

section \<open>Map helpers\<close>

text \<open>
  \<open>bpf_map_lookup_elem\<close> on an array map: a pointer to the slot, or \<open>NULL\<close> for a key
  outside the map. The pointer is modelled by the slot's value; a write through it is a
  list update at the same key.
\<close>

definition bpf_map_lookup_elem :: "'a list \<Rightarrow> u32 \<Rightarrow> 'a option" where
  "bpf_map_lookup_elem m key = (if unat key < length m then Some (m ! unat key) else None)"

text \<open>
  \<open>bpf_map_update_elem(..., BPF_ANY)\<close> on an array map stores the value at an existing
  key and fails, leaving the map alone, for a key outside it. The handler ignores the
  return code, so only the map is returned.
\<close>

definition bpf_map_update_elem :: "'a list \<Rightarrow> u32 \<Rightarrow> 'a \<Rightarrow> 'a list" where
  "bpf_map_update_elem m key v = (if unat key < length m then m[unat key := v] else m)"

text \<open>
  The idiom \<open>cnt = bpf_map_lookup_elem(&stats, &key); if (cnt) __sync_fetch_and_add(cnt, 1);\<close>
\<close>

definition stat_inc :: "u64 list \<Rightarrow> u32 \<Rightarrow> u64 list" where
  "stat_inc st key =
     (case bpf_map_lookup_elem st key of
        None \<Rightarrow> st
      | Some cnt \<Rightarrow> st[unat key := cnt + 1])"

section \<open>The tracepoint handler\<close>

text \<open>
  \<open>handle_count_memcg_events\<close>. The value of \<open>bpf_ktime_get_ns()\<close>, read once per call,
  is the argument \<open>current_ts\<close>. The result is the return code and the maps after the call.
\<close>

definition handle_count_memcg_events ::
  "memcg_priority_config \<Rightarrow> trace_event_raw_memcg_rstat_events \<Rightarrow> u64 \<Rightarrow> bpf_maps
     \<Rightarrow> s32 \<times> bpf_maps" where
  "handle_count_memcg_events cfg ctx current_ts s =
     (if id_ctx ctx \<noteq> high_cgroup_id cfg \<or> item ctx \<noteq> 23 then (0, s)
      else
        case bpf_map_lookup_elem (aggregation_map s) 0 of
          None \<Rightarrow> (0, s)
        | Some data \<Rightarrow>
            let data1 =
                  (if current_ts - window_start_ts data < ONE_SECOND_NS
                   then data\<lparr>sum_agg := sum_agg data + val ctx\<rparr>
                   else data\<lparr>window_start_ts := current_ts, sum_agg := val ctx\<rparr>)
            in
              if threshold cfg < sum_agg data1
              then (0, s\<lparr>trigger_ts_map := bpf_map_update_elem (trigger_ts_map s) 0 current_ts,
                         aggregation_map :=
                           (aggregation_map s)
                             [0 := data1\<lparr>sum_agg := 0, window_start_ts := current_ts\<rparr>]\<rparr>)
              else (0, s\<lparr>aggregation_map := (aggregation_map s)[0 := data1]\<rparr>))"

section \<open>The protection window and the struct\_ops callbacks\<close>

text \<open>\<open>need_protection\<close>, with the clock reading as \<open>current_ts\<close>.\<close>

definition need_protection :: "bpf_maps \<Rightarrow> u64 \<Rightarrow> bool" where
  "need_protection s current_ts =
     (case bpf_map_lookup_elem (trigger_ts_map s) 0 of
        None \<Rightarrow> False
      | Some trigger_ts \<Rightarrow>
          if trigger_ts = 0 then False else current_ts - trigger_ts < ONE_SECOND_NS)"

text \<open>
  The callbacks take a \<open>struct mem_cgroup *\<close> that none of them reads; it is left out.
  Each returns its result and the maps after the call.
\<close>

definition below_low_impl :: "memcg_priority_config \<Rightarrow> u64 \<Rightarrow> bpf_maps \<Rightarrow> bool \<times> bpf_maps" where
  "below_low_impl cfg current_ts s =
     (let s1 = s\<lparr>stats := stat_inc (stats s) STAT_BELOW_LOW_CALLS\<rparr> in
        if use_below_low cfg = 0 then (False, s1)
        else if need_protection s1 current_ts
        then (True, s1\<lparr>stats := stat_inc (stats s1) STAT_BELOW_LOW_ACTIVE\<rparr>)
        else (False, s1))"

definition below_min_impl :: "memcg_priority_config \<Rightarrow> u64 \<Rightarrow> bpf_maps \<Rightarrow> bool \<times> bpf_maps" where
  "below_min_impl cfg current_ts s =
     (if use_below_min cfg = 0 then (False, s)
      else (need_protection s current_ts, s))"

definition get_high_delay_ms_impl ::
  "memcg_priority_config \<Rightarrow> u64 \<Rightarrow> bpf_maps \<Rightarrow> u32 \<times> bpf_maps" where
  "get_high_delay_ms_impl cfg current_ts s =
     (let s1 = s\<lparr>stats := stat_inc (stats s) STAT_HIGH_DELAY_CALLS\<rparr> in
        if over_high_ms cfg \<noteq> 0 \<and> need_protection s1 current_ts
        then (over_high_ms cfg, s1\<lparr>stats := stat_inc (stats s1) STAT_HIGH_DELAY_ACTIVE\<rparr>)
        else (0, s1))"

section \<open>Sequences of calls\<close>

text \<open>
  The kernel calls the handler and the callbacks in some order; each call comes with the
  clock reading it observes. A run threads the maps through the calls and collects what
  each returned.
\<close>

datatype callback =
    CountMemcgEvents trace_event_raw_memcg_rstat_events
  | BelowLow
  | BelowMin
  | GetHighDelayMs

datatype retval = RetInt s32 | RetBool bool | RetUInt u32

fun invoke :: "memcg_priority_config \<Rightarrow> u64 \<times> callback \<Rightarrow> bpf_maps \<Rightarrow> retval \<times> bpf_maps" where
  "invoke cfg (ts, CountMemcgEvents ctx) s =
     (case handle_count_memcg_events cfg ctx ts s of (r, s') \<Rightarrow> (RetInt r, s'))"
| "invoke cfg (ts, BelowLow) s =
     (case below_low_impl cfg ts s of (r, s') \<Rightarrow> (RetBool r, s'))"
| "invoke cfg (ts, BelowMin) s =
     (case below_min_impl cfg ts s of (r, s') \<Rightarrow> (RetBool r, s'))"
| "invoke cfg (ts, GetHighDelayMs) s =
     (case get_high_delay_ms_impl cfg ts s of (r, s') \<Rightarrow> (RetUInt r, s'))"

fun run :: "memcg_priority_config \<Rightarrow> (u64 \<times> callback) list \<Rightarrow> bpf_maps
              \<Rightarrow> retval list \<times> bpf_maps" where
  "run cfg [] s = ([], s)"
| "run cfg (c # cs) s =
     (case invoke cfg c s of (r, s1) \<Rightarrow>
        case run cfg cs s1 of (rs, s2) \<Rightarrow> (r # rs, s2))"

section \<open>What the specification counts and expects\<close>

text \<open>
  The window update in the specification's words (section 4.1): if
  \<open>now - window.window_start < 1s\<close> then \<open>window.sum += value\<close>, else start a new window
  with \<open>window.window_start = now\<close> and \<open>window.sum = value\<close>. It is compared below with
  what the handler does.
\<close>

definition spec_window_update :: "u64 \<Rightarrow> u64 \<Rightarrow> AggregationData \<Rightarrow> AggregationData" where
  "spec_window_update now v w =
     (if now - window_start_ts w < ONE_SECOND_NS
      then \<lparr>sum_agg = sum_agg w + v, window_start_ts = window_start_ts w\<rparr>
      else \<lparr>sum_agg = v, window_start_ts = now\<rparr>)"

text \<open>
  The triggering condition of each counter, as a predicate on a call and what it
  returned, and the number of calls of a run that satisfy such a condition.
\<close>

definition throttle_query :: "callback \<Rightarrow> retval \<Rightarrow> bool" where
  "throttle_query c r = (c = GetHighDelayMs)"

definition throttle_active :: "callback \<Rightarrow> retval \<Rightarrow> bool" where
  "throttle_active c r = (c = GetHighDelayMs \<and> r \<noteq> RetUInt 0)"

definition protect_query :: "callback \<Rightarrow> retval \<Rightarrow> bool" where
  "protect_query c r = (c = BelowLow)"

definition protect_active :: "callback \<Rightarrow> retval \<Rightarrow> bool" where
  "protect_active c r = (c = BelowLow \<and> r = RetBool True)"

definition calls_with ::
  "(callback \<Rightarrow> retval \<Rightarrow> bool) \<Rightarrow> (u64 \<times> callback) list \<Rightarrow> retval list \<Rightarrow> nat" where
  "calls_with P cs rs = length (filter (\<lambda>(c, r). P (snd c) r) (zip cs rs))"

text \<open>
  The condition counted by the counter at index \<open>i\<close> of \<open>stats\<close>, following the enum of
  the source.
\<close>

definition stat_cond :: "nat \<Rightarrow> callback \<Rightarrow> retval \<Rightarrow> bool" where
  "stat_cond i =
     (if i = unat STAT_HIGH_DELAY_CALLS then throttle_query
      else if i = unat STAT_HIGH_DELAY_ACTIVE then throttle_active
      else if i = unat STAT_BELOW_LOW_CALLS then protect_query
      else protect_active)"

section \<open>Concrete configurations and events\<close>

definition cfg_ex :: memcg_priority_config where
  "cfg_ex = \<lparr>high_cgroup_id = 7, threshold = 1, over_high_ms = 2000,
             use_below_low = 1, use_below_min = 1\<rparr>"

definition cfg_off :: memcg_priority_config where
  "cfg_off = \<lparr>high_cgroup_id = 7, threshold = 1, over_high_ms = 0,
              use_below_low = 0, use_below_min = 0\<rparr>"

definition fault_ev :: "u64 \<Rightarrow> trace_event_raw_memcg_rstat_events" where
  "fault_ev v = \<lparr>id_ctx = 7, item = 23, val = v\<rparr>"

definition other_group_ev :: trace_event_raw_memcg_rstat_events where
  "other_group_ev = \<lparr>id_ctx = 8, item = 23, val = 5\<rparr>"

text \<open>
  Maps as they are once a crossing has been recorded at clock reading 100, with some
  callback calls already counted.
\<close>

definition triggered_maps :: bpf_maps where
  "triggered_maps =
     \<lparr>aggregation_map = [\<lparr>sum_agg = 0, window_start_ts = 100\<rparr>],
      trigger_ts_map = [100],
      stats = [4, 2, 3, 1]\<rparr>"

text \<open>A run that exercises the handler and all three callbacks.\<close>

definition example_run :: "(u64 \<times> callback) list" where
  "example_run =
     [(10, CountMemcgEvents (fault_ev 2)), (20, BelowLow), (30, GetHighDelayMs),
      (2000000000, BelowLow), (2000000001, BelowMin)]"

text \<open>\<open>n\<close> calls of \<open>get_high_delay_ms\<close> in a row.\<close>

definition delay_calls :: "nat \<Rightarrow> (u64 \<times> callback) list" where
  "delay_calls n = replicate n (0, GetHighDelayMs)"

section \<open>Basic facts\<close>

lemma maps_sized_init: "maps_sized init_maps"
  by (simp add: maps_sized_def init_maps_def)

lemma lookup_in_range:
  "unat key < length m \<Longrightarrow> bpf_map_lookup_elem m key = Some (m ! unat key)"
  by (simp add: bpf_map_lookup_elem_def)

lemma length_stat_inc: "length (stat_inc st key) = length st"
  by (simp add: stat_inc_def bpf_map_lookup_elem_def)

lemma length_update_elem: "length (bpf_map_update_elem m key v) = length m"
  by (simp add: bpf_map_update_elem_def)

section \<open>Events that are not of interest\<close>

text \<open>
  C7. An event whose cgroup id is not \<open>high_cgroup_id\<close>, or whose item is not 23
  (\<open>PGFAULT\<close>), leaves all three maps (aggregation window, trigger timestamp, counters) as
  they were, and the handler returns 0.
\<close>

theorem irrelevant_event_noop:
  "id_ctx ctx \<noteq> high_cgroup_id cfg \<or> item ctx \<noteq> 23 \<Longrightarrow>
     handle_count_memcg_events cfg ctx now s = (0, s)"
  by (simp add: handle_count_memcg_events_def)

theorem irrelevant_event_noop_witness:
  "(id_ctx other_group_ev \<noteq> high_cgroup_id cfg_ex) \<and>
   handle_count_memcg_events cfg_ex other_group_ev 600 triggered_maps = (0, triggered_maps) \<and>
   item ((fault_ev 5)\<lparr>item := 24\<rparr>) \<noteq> 23 \<and>
   handle_count_memcg_events cfg_ex ((fault_ev 5)\<lparr>item := 24\<rparr>) 600 triggered_maps
     = (0, triggered_maps)"
  using irrelevant_event_noop [of other_group_ev cfg_ex 600 triggered_maps]
    irrelevant_event_noop [of "(fault_ev 5)\<lparr>item := 24\<rparr>" cfg_ex 600 triggered_maps]
  by (simp add: other_group_ev_def cfg_ex_def fault_ev_def)

section \<open>The protection window\<close>

lemma need_protection_stats [simp]:
  "need_protection (s\<lparr>stats := st\<rparr>) now = need_protection s now"
  by (simp add: need_protection_def)

lemma need_protection_sized:
  "length (trigger_ts_map s) = 1 \<Longrightarrow>
     need_protection s now =
       (trigger_ts_map s ! 0 \<noteq> 0 \<and> now - trigger_ts_map s ! 0 < ONE_SECOND_NS)"
  by (simp add: need_protection_def bpf_map_lookup_elem_def)

lemma stat_inc_sized:
  "unat key < length st \<Longrightarrow> stat_inc st key = st[unat key := st ! unat key + 1]"
  by (simp add: stat_inc_def bpf_map_lookup_elem_def)

lemma singleton_update: "length xs = Suc 0 \<Longrightarrow> xs[0 := v] = [v]"
  by (cases xs) simp_all

text \<open>
  C3. \<open>need_protection\<close> is false when the stored trigger timestamp is 0, the value the
  map has while no crossing has been recorded, and otherwise true exactly when the clock
  minus the trigger timestamp is below one second (in 64-bit arithmetic). It returns a
  truth value only: it has no way to change a map.
\<close>

theorem need_protection_spec:
  "maps_sized s \<Longrightarrow>
     need_protection s now =
       (trigger_ts_map s ! 0 \<noteq> 0 \<and> now - trigger_ts_map s ! 0 < ONE_SECOND_NS)"
  by (simp add: maps_sized_def need_protection_sized)

theorem need_protection_spec_witness:
  "maps_sized triggered_maps \<and> need_protection triggered_maps 600 \<and>
   \<not> need_protection triggered_maps 1000000100 \<and> \<not> need_protection init_maps 600"
  using need_protection_spec [of triggered_maps 600]
    need_protection_spec [of triggered_maps 1000000100]
    need_protection_spec [of init_maps 600]
  by (simp add: maps_sized_def triggered_maps_def init_maps_def ONE_SECOND_NS_def)

section \<open>The callbacks\<close>

lemma get_high_delay_ms_stats4:
  "length (stats s) = 4 \<Longrightarrow>
     get_high_delay_ms_impl cfg now s =
       (if over_high_ms cfg \<noteq> 0 \<and> need_protection s now
        then (over_high_ms cfg,
              s\<lparr>stats := (stats s)[0 := stats s ! 0 + 1, 1 := stats s ! 1 + 1]\<rparr>)
        else (0, s\<lparr>stats := (stats s)[0 := stats s ! 0 + 1]\<rparr>))"
  by (simp add: get_high_delay_ms_impl_def stat_inc_sized
      STAT_HIGH_DELAY_CALLS_def STAT_HIGH_DELAY_ACTIVE_def Let_def)

lemma below_low_stats4:
  "length (stats s) = 4 \<Longrightarrow>
     below_low_impl cfg now s =
       (if use_below_low cfg \<noteq> 0 \<and> need_protection s now
        then (True, s\<lparr>stats := (stats s)[2 := stats s ! 2 + 1, 3 := stats s ! 3 + 1]\<rparr>)
        else (False, s\<lparr>stats := (stats s)[2 := stats s ! 2 + 1]\<rparr>))"
  by (simp add: below_low_impl_def stat_inc_sized
      STAT_BELOW_LOW_CALLS_def STAT_BELOW_LOW_ACTIVE_def Let_def)

text \<open>
  C4. \<open>get_high_delay_ms_impl\<close> always adds one to \<open>stats[STAT_HIGH_DELAY_CALLS]\<close>. When
  \<open>over_high_ms\<close> is above 0 and protection is needed it also adds one to
  \<open>stats[STAT_HIGH_DELAY_ACTIVE]\<close> and returns \<open>over_high_ms\<close>; in every other case it
  returns 0 and leaves that counter alone. Nothing else changes.
\<close>

theorem get_high_delay_ms_spec:
  "maps_sized s \<Longrightarrow>
     get_high_delay_ms_impl cfg now s =
       (if 0 < over_high_ms cfg \<and> need_protection s now
        then (over_high_ms cfg,
              s\<lparr>stats := (stats s)[0 := stats s ! 0 + 1, 1 := stats s ! 1 + 1]\<rparr>)
        else (0, s\<lparr>stats := (stats s)[0 := stats s ! 0 + 1]\<rparr>))"
  by (simp add: maps_sized_def get_high_delay_ms_impl_def stat_inc_sized
      STAT_HIGH_DELAY_CALLS_def STAT_HIGH_DELAY_ACTIVE_def Let_def word_greater_zero_iff)

theorem get_high_delay_ms_spec_witness:
  "maps_sized triggered_maps \<and>
   get_high_delay_ms_impl cfg_ex 600 triggered_maps =
     (2000, triggered_maps\<lparr>stats := [5, 3, 3, 1]\<rparr>) \<and>
   get_high_delay_ms_impl cfg_off 600 triggered_maps =
     (0, triggered_maps\<lparr>stats := [5, 2, 3, 1]\<rparr>) \<and>
   get_high_delay_ms_impl cfg_ex 600 init_maps = (0, init_maps\<lparr>stats := [1, 0, 0, 0]\<rparr>)"
  using get_high_delay_ms_spec [of triggered_maps cfg_ex 600]
    get_high_delay_ms_spec [of triggered_maps cfg_off 600]
    get_high_delay_ms_spec [of init_maps cfg_ex 600]
  by (simp add: maps_sized_def triggered_maps_def init_maps_def cfg_ex_def cfg_off_def
      need_protection_sized ONE_SECOND_NS_def)

text \<open>
  C5. \<open>below_low_impl\<close> always adds one to \<open>stats[STAT_BELOW_LOW_CALLS]\<close>. It returns
  false when \<open>use_below_low\<close> is 0; otherwise it returns \<open>need_protection\<close>, adding one to
  \<open>stats[STAT_BELOW_LOW_ACTIVE]\<close> exactly when that is true.
\<close>

theorem below_low_spec:
  "maps_sized s \<Longrightarrow>
     below_low_impl cfg now s =
       (if use_below_low cfg \<noteq> 0 \<and> need_protection s now
        then (True, s\<lparr>stats := (stats s)[2 := stats s ! 2 + 1, 3 := stats s ! 3 + 1]\<rparr>)
        else (False, s\<lparr>stats := (stats s)[2 := stats s ! 2 + 1]\<rparr>))"
  by (simp add: maps_sized_def below_low_impl_def stat_inc_sized
      STAT_BELOW_LOW_CALLS_def STAT_BELOW_LOW_ACTIVE_def Let_def)

theorem below_low_spec_witness:
  "maps_sized triggered_maps \<and>
   below_low_impl cfg_ex 600 triggered_maps = (True, triggered_maps\<lparr>stats := [4, 2, 4, 2]\<rparr>) \<and>
   below_low_impl cfg_off 600 triggered_maps = (False, triggered_maps\<lparr>stats := [4, 2, 4, 1]\<rparr>) \<and>
   below_low_impl cfg_ex 600 init_maps = (False, init_maps\<lparr>stats := [0, 0, 1, 0]\<rparr>)"
  using below_low_spec [of triggered_maps cfg_ex 600]
    below_low_spec [of triggered_maps cfg_off 600]
    below_low_spec [of init_maps cfg_ex 600]
  by (simp add: maps_sized_def triggered_maps_def init_maps_def cfg_ex_def cfg_off_def
      need_protection_sized ONE_SECOND_NS_def)

text \<open>
  C6. \<open>below_min_impl\<close> returns false when \<open>use_below_min\<close> is 0 and \<open>need_protection\<close>
  otherwise, and leaves every map, the four counters among them, as it was.
\<close>

theorem below_min_spec:
  "below_min_impl cfg now s = (use_below_min cfg \<noteq> 0 \<and> need_protection s now, s)"
  by (simp add: below_min_impl_def)

section \<open>Relevant events\<close>

lemma handler_relevant:
  assumes "maps_sized s" and "id_ctx ctx = high_cgroup_id cfg" and "item ctx = 23"
  shows "handle_count_memcg_events cfg ctx now s =
     (if threshold cfg < sum_agg (spec_window_update now (val ctx) (aggregation_map s ! 0))
      then (0, s\<lparr>trigger_ts_map := [now],
                 aggregation_map := [\<lparr>sum_agg = 0, window_start_ts = now\<rparr>]\<rparr>)
      else (0, s\<lparr>aggregation_map :=
                   [spec_window_update now (val ctx) (aggregation_map s ! 0)]\<rparr>))"
  using assms
  by (simp add: handle_count_memcg_events_def maps_sized_def bpf_map_lookup_elem_def
      bpf_map_update_elem_def spec_window_update_def singleton_update Let_def)

lemma elapsed_nat:
  fixes t now :: u64
  assumes "unat now \<le> unat t"
  shows "(t - now < ONE_SECOND_NS) = (unat t < unat now + 1000000000)"
proof -
  have "now \<le> t" using assms by (simp add: word_le_nat_alt)
  then have "unat (t - now) = unat t - unat now" by (rule unat_sub)
  then show ?thesis using assms
    by (auto simp add: word_less_nat_alt ONE_SECOND_NS_def)
qed

text \<open>
  C2. For an event of the monitored cgroup with item 23, the handler first updates the
  window as the specification says: within one second of the window's start it adds the
  value to the sum and keeps the start, otherwise it starts a new window at the current
  time holding the value alone. That window is what it compares with the threshold, and
  what it leaves in the map unless the sum is above the threshold (then the reset of C1
  follows in the same call).
\<close>

theorem handler_window_update:
  assumes "maps_sized s" and "id_ctx ctx = high_cgroup_id cfg" and "item ctx = 23"
  shows "handle_count_memcg_events cfg ctx now s =
     (if threshold cfg < sum_agg (spec_window_update now (val ctx) (aggregation_map s ! 0))
      then (0, s\<lparr>trigger_ts_map := [now],
                 aggregation_map := [\<lparr>sum_agg = 0, window_start_ts = now\<rparr>]\<rparr>)
      else (0, s\<lparr>aggregation_map :=
                   [spec_window_update now (val ctx) (aggregation_map s ! 0)]\<rparr>))"
  using assms by (rule handler_relevant)

theorem handler_window_update_witness:
  "maps_sized triggered_maps \<and> id_ctx (fault_ev 1) = high_cgroup_id cfg_ex \<and>
   item (fault_ev 1) = 23 \<and>
   handle_count_memcg_events cfg_ex (fault_ev 1) 600 triggered_maps
     = (0, triggered_maps\<lparr>aggregation_map := [\<lparr>sum_agg = 1, window_start_ts = 100\<rparr>]\<rparr>) \<and>
   handle_count_memcg_events cfg_ex (fault_ev 1) 1000000100
       (triggered_maps\<lparr>aggregation_map := [\<lparr>sum_agg = 1, window_start_ts = 100\<rparr>]\<rparr>)
     = (0, triggered_maps
             \<lparr>aggregation_map := [\<lparr>sum_agg = 1, window_start_ts = 1000000100\<rparr>]\<rparr>) \<and>
   handle_count_memcg_events cfg_ex (fault_ev 1) 600
       (triggered_maps\<lparr>aggregation_map := [\<lparr>sum_agg = 1, window_start_ts = 100\<rparr>]\<rparr>)
     = (0, triggered_maps\<lparr>trigger_ts_map := [600],
             aggregation_map := [\<lparr>sum_agg = 0, window_start_ts = 600\<rparr>]\<rparr>)"
  using handler_window_update [of triggered_maps "fault_ev 1" cfg_ex 600]
    handler_window_update
      [of "triggered_maps\<lparr>aggregation_map := [\<lparr>sum_agg = 1, window_start_ts = 100\<rparr>]\<rparr>"
          "fault_ev 1" cfg_ex 1000000100]
    handler_window_update
      [of "triggered_maps\<lparr>aggregation_map := [\<lparr>sum_agg = 1, window_start_ts = 100\<rparr>]\<rparr>"
          "fault_ev 1" cfg_ex 600]
  by (simp add: maps_sized_def triggered_maps_def fault_ev_def cfg_ex_def
      spec_window_update_def ONE_SECOND_NS_def)

text \<open>
  C1. When the sum of the updated window is above the threshold, the handler stores the
  current time as trigger timestamp and resets the window to sum 0 starting now.
  Consequently \<open>need_protection\<close> holds exactly while the clock minus that reading is
  below one second: throughout the following second, and not once more than a second
  has passed (already not at exactly one second). The clock is \<open>bpf_ktime_get_ns()\<close>,
  the nanoseconds since boot, which is not 0 when the attached handler runs; the
  consequence is stated for such a reading, since \<open>need_protection\<close> keeps 0 for "nothing
  recorded" (see C10).
\<close>

theorem crossing_triggers_protection:
  assumes "maps_sized s" and "id_ctx ctx = high_cgroup_id cfg" and "item ctx = 23"
    and "threshold cfg < sum_agg (spec_window_update now (val ctx) (aggregation_map s ! 0))"
  shows "trigger_ts_map (snd (handle_count_memcg_events cfg ctx now s)) = [now] \<and>
     aggregation_map (snd (handle_count_memcg_events cfg ctx now s))
       = [\<lparr>sum_agg = 0, window_start_ts = now\<rparr>] \<and>
     (now \<noteq> 0 \<longrightarrow>
        (\<forall>t. need_protection (snd (handle_count_memcg_events cfg ctx now s)) t
               = (t - now < ONE_SECOND_NS)) \<and>
        (\<forall>t. unat now \<le> unat t \<and> unat t < unat now + 1000000000 \<longrightarrow>
               need_protection (snd (handle_count_memcg_events cfg ctx now s)) t) \<and>
        (\<forall>t. unat now + 1000000000 \<le> unat t \<longrightarrow>
               \<not> need_protection (snd (handle_count_memcg_events cfg ctx now s)) t))"
proof -
  let ?s' = "snd (handle_count_memcg_events cfg ctx now s)"
  have s': "?s' = s\<lparr>trigger_ts_map := [now],
                     aggregation_map := [\<lparr>sum_agg = 0, window_start_ts = now\<rparr>]\<rparr>"
    using assms by (simp add: handler_relevant)
  have np: "need_protection ?s' t = (t - now < ONE_SECOND_NS)" if "now \<noteq> 0" for t
    using that by (simp add: s' need_protection_sized)
  have a: "need_protection ?s' t"
    if "now \<noteq> 0" and "unat now \<le> unat t \<and> unat t < unat now + 1000000000" for t
    using that np [of t] elapsed_nat [of now t] by simp
  have b: "\<not> need_protection ?s' t"
    if "now \<noteq> 0" and "unat now + 1000000000 \<le> unat t" for t
    using that np [of t] elapsed_nat [of now t] by simp
  show ?thesis using np a b by (simp add: s')
qed

theorem crossing_triggers_protection_witness:
  "maps_sized init_maps \<and> id_ctx (fault_ev 2) = high_cgroup_id cfg_ex \<and>
   item (fault_ev 2) = 23 \<and>
   threshold cfg_ex
     < sum_agg (spec_window_update 100 (val (fault_ev 2)) (aggregation_map init_maps ! 0)) \<and>
   (100 :: u64) \<noteq> 0 \<and>
   snd (handle_count_memcg_events cfg_ex (fault_ev 2) 100 init_maps)
     = init_maps\<lparr>trigger_ts_map := [100],
                 aggregation_map := [\<lparr>sum_agg = 0, window_start_ts = 100\<rparr>]\<rparr> \<and>
   need_protection (snd (handle_count_memcg_events cfg_ex (fault_ev 2) 100 init_maps)) 100 \<and>
   need_protection (snd (handle_count_memcg_events cfg_ex (fault_ev 2) 100 init_maps))
     1000000099 \<and>
   \<not> need_protection (snd (handle_count_memcg_events cfg_ex (fault_ev 2) 100 init_maps))
     1000000100"
  using crossing_triggers_protection [of init_maps "fault_ev 2" cfg_ex 100]
  by (simp add: maps_sized_def init_maps_def fault_ev_def cfg_ex_def spec_window_update_def
      ONE_SECOND_NS_def handle_count_memcg_events_def bpf_map_lookup_elem_def
      bpf_map_update_elem_def)

text \<open>
  C10. The value 0 in \<open>trigger_ts_map\<close> stands for "no crossing recorded":
  \<open>need_protection\<close> is false at every clock reading while it is stored. A crossing that
  happens at clock reading 0 stores that same 0, so the trigger map is what it was
  initially and protection is not active at any later reading.
\<close>

theorem zero_trigger_is_never_triggered:
  assumes "maps_sized s"
  shows "(trigger_ts_map s ! 0 = 0 \<longrightarrow> \<not> need_protection s t) \<and>
     (id_ctx ctx = high_cgroup_id cfg \<and> item ctx = 23 \<and>
      threshold cfg < sum_agg (spec_window_update 0 (val ctx) (aggregation_map s ! 0)) \<longrightarrow>
        trigger_ts_map (snd (handle_count_memcg_events cfg ctx 0 s)) = trigger_ts_map init_maps \<and>
        \<not> need_protection (snd (handle_count_memcg_events cfg ctx 0 s)) t)"
  using assms
  by (simp add: handler_relevant need_protection_sized maps_sized_def init_maps_def)

theorem zero_trigger_is_never_triggered_witness:
  "maps_sized (triggered_maps\<lparr>trigger_ts_map := [0]\<rparr>) \<and>
   trigger_ts_map (triggered_maps\<lparr>trigger_ts_map := [0]\<rparr>) ! 0 = 0 \<and>
   \<not> need_protection (triggered_maps\<lparr>trigger_ts_map := [0]\<rparr>) 7 \<and>
   id_ctx (fault_ev 3) = high_cgroup_id cfg_ex \<and> item (fault_ev 3) = 23 \<and>
   threshold cfg_ex < sum_agg (spec_window_update 0 (val (fault_ev 3))
       (aggregation_map (triggered_maps\<lparr>trigger_ts_map := [0]\<rparr>) ! 0)) \<and>
   trigger_ts_map (snd (handle_count_memcg_events cfg_ex (fault_ev 3) 0
       (triggered_maps\<lparr>trigger_ts_map := [0]\<rparr>))) = [0] \<and>
   \<not> need_protection (snd (handle_count_memcg_events cfg_ex (fault_ev 3) 0
       (triggered_maps\<lparr>trigger_ts_map := [0]\<rparr>))) 7"
  using zero_trigger_is_never_triggered
    [of "triggered_maps\<lparr>trigger_ts_map := [0]\<rparr>" 7 "fault_ev 3" cfg_ex]
  by (simp add: maps_sized_def triggered_maps_def init_maps_def fault_ev_def cfg_ex_def
      spec_window_update_def ONE_SECOND_NS_def)

section \<open>Runs from the initial maps\<close>

lemma maps_sized_invoke:
  "maps_sized s \<Longrightarrow> maps_sized (snd (invoke cfg c s))"
proof (cases c)
  case (Pair ts cb)
  assume "maps_sized s"
  then show ?thesis unfolding Pair
    by (cases cb)
      (simp_all add: maps_sized_def handle_count_memcg_events_def below_low_impl_def
        below_min_impl_def get_high_delay_ms_impl_def length_stat_inc length_update_elem
        Let_def bpf_map_lookup_elem_def split: option.splits)
qed

lemma aggregation_callbacks:
  "aggregation_map (snd (below_low_impl cfg ts s)) = aggregation_map s"
  "aggregation_map (snd (below_min_impl cfg ts s)) = aggregation_map s"
  "aggregation_map (snd (get_high_delay_ms_impl cfg ts s)) = aggregation_map s"
  by (simp_all add: below_low_impl_def below_min_impl_def get_high_delay_ms_impl_def Let_def)

lemma handler_sum_bound:
  assumes "maps_sized s"
    and "sum_agg (aggregation_map s ! 0) \<le> threshold cfg"
  shows "sum_agg (aggregation_map (snd (handle_count_memcg_events cfg ctx now s)) ! 0)
           \<le> threshold cfg"
proof (cases "id_ctx ctx = high_cgroup_id cfg \<and> item ctx = 23")
  case True
  then show ?thesis using assms(1)
    by (simp add: handler_relevant not_less)
next
  case False
  then show ?thesis using assms(2)
    by (auto simp add: handle_count_memcg_events_def)
qed

lemma snd_invoke:
  "snd (invoke cfg (ts, CountMemcgEvents ctx) s) = snd (handle_count_memcg_events cfg ctx ts s)"
  "snd (invoke cfg (ts, BelowLow) s) = snd (below_low_impl cfg ts s)"
  "snd (invoke cfg (ts, BelowMin) s) = snd (below_min_impl cfg ts s)"
  "snd (invoke cfg (ts, GetHighDelayMs) s) = snd (get_high_delay_ms_impl cfg ts s)"
  by (simp_all split: prod.splits)

lemma invoke_sum_bound:
  assumes "maps_sized s"
    and "sum_agg (aggregation_map s ! 0) \<le> threshold cfg"
  shows "sum_agg (aggregation_map (snd (invoke cfg c s)) ! 0) \<le> threshold cfg"
proof (cases c)
  case (Pair ts cb)
  show ?thesis unfolding Pair using assms handler_sum_bound [OF assms]
    by (cases cb) (simp_all add: snd_invoke aggregation_callbacks del: invoke.simps)
qed

lemma run_snd_Cons:
  "snd (run cfg (c # cs) s) = snd (run cfg cs (snd (invoke cfg c s)))"
  by (simp split: prod.splits)

lemma run_sum_bound:
  "maps_sized s \<Longrightarrow> sum_agg (aggregation_map s ! 0) \<le> threshold cfg \<Longrightarrow>
     maps_sized (snd (run cfg cs s)) \<and>
     sum_agg (aggregation_map (snd (run cfg cs s)) ! 0) \<le> threshold cfg"
proof (induction cs arbitrary: s)
  case Nil
  then show ?case by simp
next
  case (Cons c cs)
  have "maps_sized (snd (invoke cfg c s))"
    using Cons.prems(1) by (rule maps_sized_invoke)
  moreover have "sum_agg (aggregation_map (snd (invoke cfg c s)) ! 0) \<le> threshold cfg"
    using Cons.prems by (rule invoke_sum_bound)
  ultimately show ?case
    unfolding run_snd_Cons by (rule Cons.IH)
qed

text \<open>
  C9. Starting from the zero-initialised maps, after any sequence of calls (so after
  every completed call of the handler) the window sum is at most the threshold: a sum
  above it is reset to 0 within the call that produced it. For an event of interest this
  holds after the call whatever the window held before.
\<close>

theorem window_sum_never_above_threshold:
  "sum_agg (aggregation_map (snd (run cfg cs init_maps)) ! 0) \<le> threshold cfg \<and>
   (maps_sized s \<and> id_ctx ctx = high_cgroup_id cfg \<and> item ctx = 23 \<longrightarrow>
      sum_agg (aggregation_map (snd (handle_count_memcg_events cfg ctx now s)) ! 0)
        \<le> threshold cfg)"
proof -
  have "sum_agg (aggregation_map init_maps ! 0) \<le> threshold cfg"
    by (simp add: init_maps_def)
  with maps_sized_init
  have "sum_agg (aggregation_map (snd (run cfg cs init_maps)) ! 0) \<le> threshold cfg"
    using run_sum_bound by blast
  moreover have "sum_agg (aggregation_map (snd (handle_count_memcg_events cfg ctx now s)) ! 0)
        \<le> threshold cfg"
    if "maps_sized s" "id_ctx ctx = high_cgroup_id cfg" "item ctx = 23"
    using that by (simp add: handler_relevant not_less)
  ultimately show ?thesis by blast
qed

theorem window_sum_never_above_threshold_witness:
  "snd (run cfg_ex [(10, CountMemcgEvents (fault_ev 1)), (15, BelowLow),
                    (20, CountMemcgEvents other_group_ev)] init_maps)
     = init_maps\<lparr>aggregation_map := [\<lparr>sum_agg = 1, window_start_ts = 0\<rparr>],
                 stats := [0, 0, 1, 0]\<rparr> \<and>
   sum_agg (aggregation_map (snd (run cfg_ex [(10, CountMemcgEvents (fault_ev 1)),
       (15, BelowLow), (20, CountMemcgEvents other_group_ev)] init_maps)) ! 0)
     \<le> threshold cfg_ex \<and>
   maps_sized (triggered_maps\<lparr>aggregation_map := [\<lparr>sum_agg = 9, window_start_ts = 100\<rparr>]\<rparr>) \<and>
   id_ctx (fault_ev 1) = high_cgroup_id cfg_ex \<and> item (fault_ev 1) = 23 \<and>
   aggregation_map (snd (handle_count_memcg_events cfg_ex (fault_ev 1) 600
       (triggered_maps\<lparr>aggregation_map := [\<lparr>sum_agg = 9, window_start_ts = 100\<rparr>]\<rparr>)))
     = [\<lparr>sum_agg = 0, window_start_ts = 600\<rparr>] \<and>
   sum_agg (aggregation_map (snd (handle_count_memcg_events cfg_ex (fault_ev 1) 600
       (triggered_maps\<lparr>aggregation_map := [\<lparr>sum_agg = 9, window_start_ts = 100\<rparr>]\<rparr>))) ! 0)
     \<le> threshold cfg_ex"
  using window_sum_never_above_threshold
    [of cfg_ex "[(10, CountMemcgEvents (fault_ev 1)), (15, BelowLow),
                 (20, CountMemcgEvents other_group_ev)]"
        "triggered_maps\<lparr>aggregation_map := [\<lparr>sum_agg = 9, window_start_ts = 100\<rparr>]\<rparr>"
        "fault_ev 1" 600]
  by (simp add: maps_sized_def triggered_maps_def init_maps_def fault_ev_def cfg_ex_def
      other_group_ev_def handle_count_memcg_events_def bpf_map_lookup_elem_def
      bpf_map_update_elem_def ONE_SECOND_NS_def below_low_impl_def stat_inc_def
      STAT_BELOW_LOW_CALLS_def STAT_BELOW_LOW_ACTIVE_def need_protection_def)

section \<open>The counters along a run\<close>

lemma below4: "i < (4::nat) \<Longrightarrow> i = 0 \<or> i = 1 \<or> i = 2 \<or> i = 3"
  by arith

lemma stats_handler:
  "stats (snd (handle_count_memcg_events cfg ctx ts s)) = stats s"
  by (simp add: handle_count_memcg_events_def Let_def split: option.splits)

lemma invoke_counts:
  assumes "maps_sized s" and "i < 4"
  shows "stats (snd (invoke cfg (ts, cb) s)) ! i =
           stats s ! i + (if stat_cond i cb (fst (invoke cfg (ts, cb) s)) then 1 else 0)"
proof (cases cb)
  case (CountMemcgEvents ctx)
  have "snd (invoke cfg (ts, cb) s) = snd (handle_count_memcg_events cfg ctx ts s)"
    unfolding CountMemcgEvents by (rule snd_invoke)
  then show ?thesis using below4 [OF assms(2)]
    by (auto simp add: stats_handler stat_cond_def CountMemcgEvents throttle_query_def
        throttle_active_def protect_query_def protect_active_def)
next
  case BelowLow
  show ?thesis using below4 [OF assms(2)] assms(1) unfolding BelowLow
    by (auto simp add: below_low_stats4 stat_cond_def throttle_query_def maps_sized_def
        throttle_active_def protect_query_def protect_active_def
        STAT_HIGH_DELAY_CALLS_def STAT_HIGH_DELAY_ACTIVE_def STAT_BELOW_LOW_CALLS_def)
next
  case BelowMin
  show ?thesis using below4 [OF assms(2)] unfolding BelowMin
    by (auto simp add: below_min_impl_def stat_cond_def throttle_query_def
        throttle_active_def protect_query_def protect_active_def)
next
  case GetHighDelayMs
  show ?thesis using below4 [OF assms(2)] assms(1) unfolding GetHighDelayMs
    by (auto simp add: get_high_delay_ms_stats4 stat_cond_def throttle_query_def maps_sized_def
        throttle_active_def protect_query_def protect_active_def
        STAT_HIGH_DELAY_CALLS_def STAT_HIGH_DELAY_ACTIVE_def STAT_BELOW_LOW_CALLS_def)
qed

lemma calls_with_Nil [simp]: "calls_with P [] rs = 0"
  by (simp add: calls_with_def)

lemma calls_with_Cons [simp]:
  "calls_with P (c # cs) (r # rs) = (if P (snd c) r then 1 else 0) + calls_with P cs rs"
  by (simp add: calls_with_def)

lemma run_Cons:
  "run cfg (c # cs) s =
     (fst (invoke cfg c s) # fst (run cfg cs (snd (invoke cfg c s))),
      snd (run cfg cs (snd (invoke cfg c s))))"
  by (simp split: prod.splits)

lemma length_run: "length (fst (run cfg cs s)) = length cs"
  by (induction cs arbitrary: s) (simp_all add: run_Cons del: run.simps(2))

lemma run_append:
  "run cfg (cs1 @ cs2) s =
     (fst (run cfg cs1 s) @ fst (run cfg cs2 (snd (run cfg cs1 s))),
      snd (run cfg cs2 (snd (run cfg cs1 s))))"
  by (induction cs1 arbitrary: s) (simp_all add: run_Cons del: run.simps(2))

lemma calls_with_append:
  "length cs1 = length rs1 \<Longrightarrow>
     calls_with P (cs1 @ cs2) (rs1 @ rs2) = calls_with P cs1 rs1 + calls_with P cs2 rs2"
  by (simp add: calls_with_def)

lemma maps_sized_run: "maps_sized s \<Longrightarrow> maps_sized (snd (run cfg cs s))"
  by (induction cs arbitrary: s) (simp_all add: run_Cons maps_sized_invoke del: run.simps(2))

lemma run_counts:
  assumes "i < 4"
  shows "maps_sized s \<Longrightarrow>
     stats (snd (run cfg cs s)) ! i =
       stats s ! i + of_nat (calls_with (stat_cond i) cs (fst (run cfg cs s)))"
proof (induction cs arbitrary: s)
  case Nil
  then show ?case by simp
next
  case (Cons c cs)
  obtain ts cb where c: "c = (ts, cb)" by (cases c)
  let ?s1 = "snd (invoke cfg c s)"
  have sized: "maps_sized ?s1" using Cons.prems by (rule maps_sized_invoke)
  have step: "stats ?s1 ! i = stats s ! i + (if stat_cond i cb (fst (invoke cfg c s)) then 1 else 0)"
    unfolding c using Cons.prems assms by (rule invoke_counts)
  show ?case
    using Cons.IH [OF sized] step
    by (simp add: run_Cons c del: run.simps(2) invoke.simps)
qed

lemma run_counts_init:
  "i < 4 \<Longrightarrow>
     stats (snd (run cfg cs init_maps)) ! i =
       of_nat (calls_with (stat_cond i) cs (fst (run cfg cs init_maps)))"
  using run_counts [of i init_maps cfg cs] below4 [of i]
  by (auto simp add: maps_sized_init) (simp_all add: init_maps_def)

lemma unat_of_nat64: "n < 2 ^ 64 \<Longrightarrow> unat (of_nat n :: u64) = n"
  by (simp add: unat_of_nat)

lemma calls_with_take:
  "length rs = length cs \<Longrightarrow>
     calls_with P (take n cs) (take n rs) \<le> calls_with P cs rs"
proof -
  assume len: "length rs = length cs"
  have "calls_with P (take n cs @ drop n cs) (take n rs @ drop n rs)
          = calls_with P (take n cs) (take n rs) + calls_with P (drop n cs) (drop n rs)"
    by (rule calls_with_append) (simp add: len)
  then show ?thesis by simp
qed

lemma run_take:
  "fst (run cfg (take n cs) s) = take n (fst (run cfg cs s))"
proof -
  have "run cfg (take n cs @ drop n cs) s =
     (fst (run cfg (take n cs) s) @ fst (run cfg (drop n cs) (snd (run cfg (take n cs) s))),
      snd (run cfg (drop n cs) (snd (run cfg (take n cs) s))))"
    by (rule run_append)
  then have "fst (run cfg (take n cs) s) @ fst (run cfg (drop n cs) (snd (run cfg (take n cs) s)))
      = fst (run cfg cs s)"
    by simp
  then have "fst (run cfg (take n cs) s) = take (length (take n cs)) (fst (run cfg cs s))"
    by (simp add: append_eq_conv_conj length_run)
  also have "\<dots> = take n (fst (run cfg cs s))"
    by (cases "n \<le> length cs") (simp_all add: min_def length_run)
  finally show ?thesis .
qed

text \<open>
  C8, as amended. After any sequence of calls from the zero-initialised maps, each of
  the four counters equals the number of calls that satisfied its condition, taken
  modulo \<open>2 ^ 64\<close>: \<open>stats[3]\<close> counts the \<open>below_low\<close> calls that returned true,
  \<open>stats[1]\<close> the \<open>get_high_delay_ms\<close> calls that returned a nonzero delay. As long as
  fewer than \<open>2 ^ 64\<close> calls satisfied the condition the counter is exactly that number,
  and it is at least what it was after any prefix of the calls.
\<close>

theorem counters_count_calls:
  assumes "i < 4"
  shows "stats (snd (run cfg cs init_maps)) ! i
           = of_nat (calls_with (stat_cond i) cs (fst (run cfg cs init_maps))) \<and>
     (calls_with (stat_cond i) cs (fst (run cfg cs init_maps)) < 2 ^ 64 \<longrightarrow>
        unat (stats (snd (run cfg cs init_maps)) ! i)
          = calls_with (stat_cond i) cs (fst (run cfg cs init_maps)) \<and>
        (\<forall>n. unat (stats (snd (run cfg (take n cs) init_maps)) ! i)
               \<le> unat (stats (snd (run cfg cs init_maps)) ! i)))"
proof -
  let ?rs = "fst (run cfg cs init_maps)"
  let ?k = "calls_with (stat_cond i) cs ?rs"
  have eq: "stats (snd (run cfg cs init_maps)) ! i = of_nat ?k"
    using assms by (rule run_counts_init)
  have exact: "unat (stats (snd (run cfg cs init_maps)) ! i) = ?k" if "?k < 2 ^ 64"
    using that by (simp add: eq unat_of_nat64)
  have mono: "unat (stats (snd (run cfg (take n cs) init_maps)) ! i)
                \<le> unat (stats (snd (run cfg cs init_maps)) ! i)" if k: "?k < 2 ^ 64" for n
  proof -
    let ?kn = "calls_with (stat_cond i) (take n cs) (fst (run cfg (take n cs) init_maps))"
    have le: "?kn \<le> ?k"
      unfolding run_take by (rule calls_with_take) (rule length_run)
    have "stats (snd (run cfg (take n cs) init_maps)) ! i = of_nat ?kn"
      using assms by (rule run_counts_init)
    then have "unat (stats (snd (run cfg (take n cs) init_maps)) ! i) = ?kn"
      using le k by (simp add: unat_of_nat64)
    then show ?thesis using le exact [OF k] by simp
  qed
  show ?thesis using eq exact mono by blast
qed

theorem counters_count_calls_witness:
  "(3::nat) < 4 \<and>
   run cfg_ex example_run init_maps =
     ([RetInt 0, RetBool True, RetUInt 2000, RetBool False, RetBool False],
      \<lparr>aggregation_map = [\<lparr>sum_agg = 0, window_start_ts = 10\<rparr>], trigger_ts_map = [10],
       stats = [1, 1, 2, 1]\<rparr>) \<and>
   calls_with (stat_cond 3) example_run (fst (run cfg_ex example_run init_maps)) = 1 \<and>
   calls_with (stat_cond 3) example_run (fst (run cfg_ex example_run init_maps)) < 2 ^ 64 \<and>
   unat (stats (snd (run cfg_ex example_run init_maps)) ! 3) = 1 \<and>
   unat (stats (snd (run cfg_ex (take 1 example_run) init_maps)) ! 3)
     \<le> unat (stats (snd (run cfg_ex example_run init_maps)) ! 3)"
proof -
  have r: "run cfg_ex example_run init_maps =
     ([RetInt 0, RetBool True, RetUInt 2000, RetBool False, RetBool False],
      \<lparr>aggregation_map = [\<lparr>sum_agg = 0, window_start_ts = 10\<rparr>], trigger_ts_map = [10],
       stats = [1, 1, 2, 1]\<rparr>)"
    by (simp add: example_run_def init_maps_def fault_ev_def cfg_ex_def
        handle_count_memcg_events_def bpf_map_lookup_elem_def bpf_map_update_elem_def
        ONE_SECOND_NS_def below_low_impl_def below_min_impl_def get_high_delay_ms_impl_def
        stat_inc_def need_protection_def STAT_BELOW_LOW_CALLS_def STAT_BELOW_LOW_ACTIVE_def
        STAT_HIGH_DELAY_CALLS_def STAT_HIGH_DELAY_ACTIVE_def)
  have k: "calls_with (stat_cond 3) example_run
             [RetInt 0, RetBool True, RetUInt 2000, RetBool False, RetBool False] = 1"
    by (simp add: example_run_def stat_cond_def protect_active_def
        STAT_BELOW_LOW_CALLS_def STAT_HIGH_DELAY_CALLS_def STAT_HIGH_DELAY_ACTIVE_def)
  show ?thesis
    using counters_count_calls [of 3 cfg_ex example_run] r k by simp
qed

text \<open>
  Without the bound the claim fails, because \<open>__sync_fetch_and_add\<close> on a \<open>__u64\<close>
  wraps: after \<open>2 ^ 64\<close> calls of \<open>get_high_delay_ms\<close> the call counter is 0 again, less
  than it was one call earlier and not the number of calls.
\<close>

lemma calls_with_delay_calls:
  "length rs = n \<Longrightarrow> calls_with throttle_query (delay_calls n) rs = n"
proof -
  assume len: "length rs = n"
  have "filter (\<lambda>(c, r). throttle_query (snd c) r) (zip (delay_calls n) rs)
          = zip (delay_calls n) rs"
    by (rule filter_True) (auto simp add: delay_calls_def throttle_query_def set_zip)
  then show ?thesis by (simp add: calls_with_def len delay_calls_def)
qed

lemma delay_calls_counter:
  "stats (snd (run cfg (delay_calls n) init_maps)) ! 0 = of_nat n"
proof -
  have "stats (snd (run cfg (delay_calls n) init_maps)) ! 0
      = of_nat (calls_with (stat_cond 0) (delay_calls n) (fst (run cfg (delay_calls n) init_maps)))"
    by (rule run_counts_init) simp
  moreover have "stat_cond 0 = throttle_query"
    by (simp add: stat_cond_def STAT_HIGH_DELAY_CALLS_def)
  moreover have "length (fst (run cfg (delay_calls n) init_maps)) = n"
    by (simp add: length_run delay_calls_def)
  ultimately show ?thesis by (simp add: calls_with_delay_calls)
qed

theorem counter_wraps_counterexample:
  "unat (stats (snd (run cfg_ex (delay_calls (2 ^ 64)) init_maps)) ! 0)
     \<noteq> calls_with throttle_query (delay_calls (2 ^ 64))
         (fst (run cfg_ex (delay_calls (2 ^ 64)) init_maps)) \<and>
   unat (stats (snd (run cfg_ex (delay_calls (2 ^ 64)) init_maps)) ! 0)
     < unat (stats (snd (run cfg_ex (delay_calls (2 ^ 64 - 1)) init_maps)) ! 0)"
proof -
  have len: "length (fst (run cfg_ex (delay_calls (2 ^ 64)) init_maps)) = 2 ^ 64"
    by (simp only: length_run delay_calls_def length_replicate)
  have k: "calls_with throttle_query (delay_calls (2 ^ 64))
         (fst (run cfg_ex (delay_calls (2 ^ 64)) init_maps)) = 2 ^ 64"
    using len by (rule calls_with_delay_calls)
  have z: "(of_nat (2 ^ 64) :: u64) = 0" by simp
  have m: "unat (of_nat (2 ^ 64 - 1) :: u64) = 2 ^ 64 - 1" by (simp add: unat_of_nat)
  show ?thesis
    unfolding k delay_calls_counter z m by simp
qed

end
